theory Spec2Isabelle
  imports Main
begin

section \<open>The host runtime: state cells\<close>

text \<open>
  \<^verbatim>\<open>hooks.ts\<close> rides on three primitives of the host UI runtime: \<^verbatim>\<open>useState\<close>,
  \<^verbatim>\<open>useRef\<close> and \<^verbatim>\<open>useEffect\<close>. A state cell holds the value of the last render and
  the updates requested since. The setter takes a value or a function of the previous
  value (\<^verbatim>\<open>x : T | ((x : T) => T)\<close>); it only records the request, and the next render
  works the requests off in the order they were made. A function handed to the setter is
  JavaScript code: it may allocate and mutate objects, so it reads and returns the rest
  of the world \<open>'h\<close> (the object heap) beside the value.
\<close>

datatype ('v, 'h) setarg = Val 'v | Fn "'v \<Rightarrow> 'h \<Rightarrow> 'v \<times> 'h"

datatype 'v init = Init 'v | Lazy "unit \<Rightarrow> 'v"

record ('v, 'h) cell =
  cur :: 'v
  queue :: "('v, 'h) setarg list"

fun initial :: "'v init \<Rightarrow> 'v" where
  "initial (Init v) = v"
| "initial (Lazy f) = f ()"

definition useState_mount :: "'v init \<Rightarrow> ('v, 'h) cell" where
  "useState_mount initialState = \<lparr>cur = initial initialState, queue = []\<rparr>"

definition setState :: "('v, 'h) setarg \<Rightarrow> ('v, 'h) cell \<Rightarrow> ('v, 'h) cell" where
  "setState x c = c\<lparr>queue := queue c @ [x]\<rparr>"

fun apply_setarg :: "('v, 'h) setarg \<Rightarrow> 'v \<Rightarrow> 'h \<Rightarrow> 'v \<times> 'h" where
  "apply_setarg (Val v) x h = (v, h)"
| "apply_setarg (Fn f) x h = f x h"

fun run_queue :: "('v, 'h) setarg list \<Rightarrow> 'v \<Rightarrow> 'h \<Rightarrow> 'v \<times> 'h" where
  "run_queue [] x h = (x, h)"
| "run_queue (a # as) x h = (case apply_setarg a x h of (x', h') \<Rightarrow> run_queue as x' h')"

definition useState_rerender :: "('v, 'h) cell \<Rightarrow> 'h \<Rightarrow> ('v, 'h) cell \<times> 'h" where
  "useState_rerender c h =
     (case run_queue (queue c) (cur c) h of (x, h') \<Rightarrow> (\<lparr>cur = x, queue = []\<rparr>, h'))"

section \<open>Links\<close>

text \<open>
  A link couples the value of the render that made it with the capability to request
  a new one. \<^verbatim>\<open>UseStateLink\<close>'s constructor stores both; \<open>'w\<close> is the state of
  the component instance the setter acts on.
\<close>

record ('v, 'h, 'w) link =
  link_value :: 'v
  link_set :: "('v, 'h) setarg \<Rightarrow> 'w \<Rightarrow> 'w"

definition UseStateLink ::
  "'v \<Rightarrow> (('v, 'h) setarg \<Rightarrow> 'w \<Rightarrow> 'w) \<Rightarrow> ('v, 'h, 'w) link" where
  "UseStateLink v s = \<lparr>link_value = v, link_set = s\<rparr>"

text \<open>
  \<^verbatim>\<open>update( fun, event )\<close> hands \<^verbatim>\<open>this.set\<close> the function
  \<^verbatim>\<open>x => { const value = helpers( x ).clone( x ), result = fun( value, event );
  return result === void 0 ? x : result; }\<close>.
  The helper \<^verbatim>\<open>clone\<close> lives in \<^verbatim>\<open>./helpers\<close>, outside \<^verbatim>\<open>hooks.ts\<close>, so it is a
  parameter. The transform \<open>f\<close> returns \<open>None\<close> for
  \<^verbatim>\<open>undefined\<close>; like \<open>clone\<close> it may change the heap (it may write to the draft).
\<close>

definition update_fn ::
  "('v \<Rightarrow> 'h \<Rightarrow> 'v \<times> 'h) \<Rightarrow> ('v \<Rightarrow> 'e option \<Rightarrow> 'h \<Rightarrow> 'v option \<times> 'h) \<Rightarrow> 'e option
     \<Rightarrow> 'v \<Rightarrow> 'h \<Rightarrow> 'v \<times> 'h" where
  "update_fn clone f event x h =
     (case clone x h of (draft, h1) \<Rightarrow>
      case f draft event h1 of (result, h2) \<Rightarrow>
        ((case result of None \<Rightarrow> x | Some r \<Rightarrow> r), h2))"

definition update ::
  "('v \<Rightarrow> 'h \<Rightarrow> 'v \<times> 'h) \<Rightarrow> ('v, 'h, 'w) link
     \<Rightarrow> ('v \<Rightarrow> 'e option \<Rightarrow> 'h \<Rightarrow> 'v option \<times> 'h) \<Rightarrow> 'e option \<Rightarrow> 'w \<Rightarrow> 'w" where
  "update clone l f event = link_set l (Fn (update_fn clone f event))"

text \<open>\<^verbatim>\<open>useLink\<close>: a state cell and a link over it whose setter is the host's.\<close>

definition useLink_mount :: "'v init \<Rightarrow> ('v, 'h, ('v, 'h) cell) link \<times> ('v, 'h) cell" where
  "useLink_mount initialState =
     (let c = useState_mount initialState in (UseStateLink (cur c) setState, c))"

definition useLink_rerender ::
  "('v, 'h) cell \<Rightarrow> 'h \<Rightarrow> (('v, 'h, ('v, 'h) cell) link \<times> ('v, 'h) cell) \<times> 'h" where
  "useLink_rerender c h =
     (case useState_rerender c h of (c', h') \<Rightarrow> ((UseStateLink (cur c') setState, c'), h'))"

section \<open>The mount tracker\<close>

text \<open>
  \<^verbatim>\<open>useIsMountedRef\<close>: \<^verbatim>\<open>useRef( true )\<close> makes the flag at the first render and
  returns the same cell at every later one. The effect has the empty dependency list, so
  the host runs it once, after the first render; it does nothing but hand the host its
  cleanup \<^verbatim>\<open>() => isMounted.current = false\<close>. The host runs a cleanup it holds when it
  tears the instance down, and drops it: \<open>cleanup_due\<close> is the host's note that it
  still holds it.
\<close>

record mount_ref =
  isMounted_current :: bool
  cleanup_due :: bool

definition useIsMountedRef_mount :: mount_ref where
  "useIsMountedRef_mount = \<lparr>isMounted_current = True, cleanup_due = True\<rparr>"

definition useIsMountedRef_rerender :: "mount_ref \<Rightarrow> mount_ref" where
  "useIsMountedRef_rerender r = r"

definition useIsMountedRef_unmount :: "mount_ref \<Rightarrow> mount_ref" where
  "useIsMountedRef_unmount r =
     (if cleanup_due r then r\<lparr>isMounted_current := False, cleanup_due := False\<rparr> else r)"

text \<open>
  The life of an instance after its first render: the host renders it again or tears it
  down. It never renders an instance it has torn down, so a render arriving then changes
  nothing. \<open>mount_trace\<close> lists the tracker after each event.
\<close>

datatype lifecycle = Rerender | Teardown

fun mount_step :: "lifecycle \<Rightarrow> mount_ref \<Rightarrow> mount_ref" where
  "mount_step Rerender r = (if cleanup_due r then useIsMountedRef_rerender r else r)"
| "mount_step Teardown r = useIsMountedRef_unmount r"

fun mount_trace :: "lifecycle list \<Rightarrow> mount_ref \<Rightarrow> mount_ref list" where
  "mount_trace [] r = []"
| "mount_trace (e # es) r = mount_step e r # mount_trace es (mount_step e r)"

section \<open>Safe links\<close>

text \<open>
  \<^verbatim>\<open>useSafeLink\<close>: a state cell, a mount tracker, and a link whose setter is
  \<^verbatim>\<open>x => isMounted.current && set( x )\<close>.
\<close>

record ('v, 'h) safe_inst =
  safe_cell :: "('v, 'h) cell"
  safe_mounted :: mount_ref

definition useSafeLink_set :: "('v, 'h) setarg \<Rightarrow> ('v, 'h) safe_inst \<Rightarrow> ('v, 'h) safe_inst" where
  "useSafeLink_set x s =
     (if isMounted_current (safe_mounted s) then s\<lparr>safe_cell := setState x (safe_cell s)\<rparr>
      else s)"

definition useSafeLink_mount ::
  "'v init \<Rightarrow> ('v, 'h, ('v, 'h) safe_inst) link \<times> ('v, 'h) safe_inst" where
  "useSafeLink_mount initialState =
     (let c = useState_mount initialState; isMounted = useIsMountedRef_mount
      in (UseStateLink (cur c) useSafeLink_set, \<lparr>safe_cell = c, safe_mounted = isMounted\<rparr>))"

definition useSafeLink_rerender ::
  "('v, 'h) safe_inst \<Rightarrow> 'h \<Rightarrow> (('v, 'h, ('v, 'h) safe_inst) link \<times> ('v, 'h) safe_inst) \<times> 'h" where
  "useSafeLink_rerender s h =
     (case useState_rerender (safe_cell s) h of (c, h') \<Rightarrow>
        let isMounted = useIsMountedRef_rerender (safe_mounted s)
        in ((UseStateLink (cur c) useSafeLink_set, \<lparr>safe_cell = c, safe_mounted = isMounted\<rparr>), h'))"

definition useSafeLink_unmount :: "('v, 'h) safe_inst \<Rightarrow> ('v, 'h) safe_inst" where
  "useSafeLink_unmount s = s\<lparr>safe_mounted := useIsMountedRef_unmount (safe_mounted s)\<rparr>"

section \<open>Bound links\<close>

text \<open>
  The source is a bare value or a link object (\<^verbatim>\<open>source instanceof Link\<close>); a link
  object has an identity of its own, the address \<open>nat\<close>, beside its fields.

  The host compares the dependency list \<^verbatim>\<open>[ value ]\<close> of a render with that of the
  render before; after the first render, and after a render where they differ, it has
  the effect \<^verbatim>\<open>() => link.set( value )\<close> of that render to run. It runs it some time
  after the render and before the next one; until then the instance holds it as
  \<open>bound_due\<close>, with the link and the value it closes over. \<open>bound_deps\<close> is the
  value of the last render.
\<close>

datatype ('v, 'h, 'w) source = Bare 'v | OfLink nat "('v, 'h, 'w) link"

fun source_value :: "('v, 'h, 'w) source \<Rightarrow> 'v" where
  "source_value (Bare v) = v"
| "source_value (OfLink a l) = link_value l"

record ('v, 'h) bound_inst =
  bound_cell :: "('v, 'h) cell"
  bound_deps :: 'v
  bound_due :: "(('v, 'h, ('v, 'h) cell) link \<times> 'v) option"

definition useBoundLink_mount ::
  "('v, 'h, 'w) source \<Rightarrow> ('v, 'h, ('v, 'h) cell) link \<times> ('v, 'h) bound_inst" where
  "useBoundLink_mount src =
     (let v = source_value src in
      case useLink_mount (Init v) of (l, c) \<Rightarrow>
        (l, \<lparr>bound_cell = c, bound_deps = v, bound_due = Some (l, v)\<rparr>))"

definition useBoundLink_rerender ::
  "('v, 'h, 'w) source \<Rightarrow> ('v, 'h) bound_inst \<Rightarrow> 'h
     \<Rightarrow> (('v, 'h, ('v, 'h) cell) link \<times> ('v, 'h) bound_inst) \<times> 'h" where
  "useBoundLink_rerender src s h =
     (let v = source_value src in
      case useLink_rerender (bound_cell s) h of ((l, c), h') \<Rightarrow>
        ((l, \<lparr>bound_cell = c, bound_deps = v,
               bound_due = (if v \<noteq> bound_deps s then Some (l, v) else None)\<rparr>), h'))"

definition useBoundLink_effect :: "('v, 'h) bound_inst \<Rightarrow> ('v, 'h) bound_inst" where
  "useBoundLink_effect s =
     (case bound_due s of
        None \<Rightarrow> s
      | Some (l, v) \<Rightarrow> s\<lparr>bound_cell := link_set l (Val v) (bound_cell s), bound_due := None\<rparr>)"

text \<open>The caller of the hook calling \<^verbatim>\<open>set\<close> of a link the hook returned.\<close>

definition bound_call ::
  "('v, 'h, ('v, 'h) cell) link \<Rightarrow> ('v, 'h) setarg \<Rightarrow> ('v, 'h) bound_inst \<Rightarrow> ('v, 'h) bound_inst" where
  "bound_call l x s = s\<lparr>bound_cell := link_set l x (bound_cell s)\<rparr>"

text \<open>\<^verbatim>\<open>useSafeBoundLink\<close> is the same hook over \<^verbatim>\<open>useSafeLink\<close>.\<close>

record ('v, 'h) safe_bound_inst =
  sbound_inner :: "('v, 'h) safe_inst"
  sbound_deps :: 'v
  sbound_due :: "(('v, 'h, ('v, 'h) safe_inst) link \<times> 'v) option"

definition useSafeBoundLink_mount ::
  "('v, 'h, 'w) source \<Rightarrow> ('v, 'h, ('v, 'h) safe_inst) link \<times> ('v, 'h) safe_bound_inst" where
  "useSafeBoundLink_mount src =
     (let v = source_value src in
      case useSafeLink_mount (Init v) of (l, i) \<Rightarrow>
        (l, \<lparr>sbound_inner = i, sbound_deps = v, sbound_due = Some (l, v)\<rparr>))"

definition useSafeBoundLink_rerender ::
  "('v, 'h, 'w) source \<Rightarrow> ('v, 'h) safe_bound_inst \<Rightarrow> 'h
     \<Rightarrow> (('v, 'h, ('v, 'h) safe_inst) link \<times> ('v, 'h) safe_bound_inst) \<times> 'h" where
  "useSafeBoundLink_rerender src s h =
     (let v = source_value src in
      case useSafeLink_rerender (sbound_inner s) h of ((l, i), h') \<Rightarrow>
        ((l, \<lparr>sbound_inner = i, sbound_deps = v,
               sbound_due = (if v \<noteq> sbound_deps s then Some (l, v) else None)\<rparr>), h'))"

definition useSafeBoundLink_effect :: "('v, 'h) safe_bound_inst \<Rightarrow> ('v, 'h) safe_bound_inst" where
  "useSafeBoundLink_effect s =
     (case sbound_due s of
        None \<Rightarrow> s
      | Some (l, v) \<Rightarrow> s\<lparr>sbound_inner := link_set l (Val v) (sbound_inner s), sbound_due := None\<rparr>)"

definition sbound_call ::
  "('v, 'h, ('v, 'h) safe_inst) link \<Rightarrow> ('v, 'h) setarg \<Rightarrow> ('v, 'h) safe_bound_inst
     \<Rightarrow> ('v, 'h) safe_bound_inst" where
  "sbound_call l x s = s\<lparr>sbound_inner := link_set l x (sbound_inner s)\<rparr>"

section \<open>JSON text\<close>

text \<open>
  \<^verbatim>\<open>JSON.parse\<close> and \<^verbatim>\<open>JSON.stringify\<close> are built into the language. \<open>JSON_parse\<close>
  follows the JSON grammar (ECMA-404): a text is one value between optional white space;
  anything else is a \<^verbatim>\<open>SyntaxError\<close>. The recursion into arrays and objects counts
  down a bound on its depth, taken from the length of the text.

  The decoded data is the text's own tree, not the built-in's value: numbers and strings
  are kept as they are written (\<^verbatim>\<open>1.0\<close> is not made \<^verbatim>\<open>1\<close>, an escape sequence is
  checked and not decoded), and the members of an object are kept in the order written,
  a repeated name with each of its values. \<open>JSON_stringify\<close> writes that tree back:
  it escapes nothing and reorders nothing. On texts such as \<^verbatim>\<open>{}\<close> and \<^verbatim>\<open>{"a":2}\<close>,
  which have no fraction, exponent, escape, repeated or number-like name, the tree is
  the built-in's value; the two are evaluated below on such texts and on the malformed
  text \<^verbatim>\<open>{\<close> only, and every general statement about the persistence hook takes the
  decoder and the encoder as parameters.
\<close>

datatype json =
  JNull | JBool bool | JNum string | JStr string | JArr "json list" | JObj "(string \<times> json) list"

datatype error = SyntaxError

definition is_ws :: "char \<Rightarrow> bool" where
  "is_ws c = (c = CHR 0x20 \<or> c = CHR 0x09 \<or> c = CHR 0x0A \<or> c = CHR 0x0D)"

definition skip_ws :: "string \<Rightarrow> string" where
  "skip_ws cs = dropWhile is_ws cs"

definition is_digit :: "char \<Rightarrow> bool" where
  "is_digit c = (c \<in> set ''0123456789'')"

definition is_hex :: "char \<Rightarrow> bool" where
  "is_hex c = (c \<in> set ''0123456789abcdefABCDEF'')"

definition is_escape :: "char \<Rightarrow> bool" where
  "is_escape c = (c = CHR 0x22 \<or> c = CHR 0x5C \<or> c \<in> set ''/bfnrt'')"

fun scan_string :: "string \<Rightarrow> string \<Rightarrow> (string \<times> string) option" where
  "scan_string acc [] = None"
| "scan_string acc (c # cs) =
     (if c = CHR 0x22 then Some (rev acc, cs)
      else if c = CHR 0x5C then
        (case cs of
           [] \<Rightarrow> None
         | e # cs' \<Rightarrow>
             if is_escape e then scan_string (e # c # acc) cs'
             else if e = CHR ''u'' \<and> 4 \<le> length cs' \<and> list_all is_hex (take 4 cs')
               then scan_string (rev (take 4 cs') @ e # c # acc) (drop 4 cs')
             else None)
      else if (of_char c :: nat) < 32 then None
      else scan_string (c # acc) cs)"

definition scan_digits :: "string \<Rightarrow> (string \<times> string) option" where
  "scan_digits cs =
     (if takeWhile is_digit cs = [] then None
      else Some (takeWhile is_digit cs, dropWhile is_digit cs))"

definition scan_int :: "string \<Rightarrow> (string \<times> string) option" where
  "scan_int cs =
     (case scan_digits cs of
        None \<Rightarrow> None
      | Some (ds, r) \<Rightarrow> if 1 < length ds \<and> hd ds = CHR ''0'' then None else Some (ds, r))"

definition scan_frac :: "string \<Rightarrow> (string \<times> string) option" where
  "scan_frac cs =
     (case cs of
        [] \<Rightarrow> Some ([], [])
      | c # r \<Rightarrow>
          if c = CHR ''.'' then
            (case scan_digits r of None \<Rightarrow> None | Some (ds, r') \<Rightarrow> Some (c # ds, r'))
          else Some ([], cs))"

definition scan_exp :: "string \<Rightarrow> (string \<times> string) option" where
  "scan_exp cs =
     (case cs of
        [] \<Rightarrow> Some ([], [])
      | c # r \<Rightarrow>
          if c = CHR ''e'' \<or> c = CHR ''E'' then
            (case r of
               [] \<Rightarrow> None
             | g # r' \<Rightarrow>
                 if g = CHR ''+'' \<or> g = CHR ''-'' then
                   (case scan_digits r' of None \<Rightarrow> None | Some (ds, r'') \<Rightarrow> Some (c # g # ds, r''))
                 else
                   (case scan_digits r of None \<Rightarrow> None | Some (ds, r'') \<Rightarrow> Some (c # ds, r'')))
          else Some ([], cs))"

definition scan_number :: "string \<Rightarrow> (string \<times> string) option" where
  "scan_number cs =
     (let (sign, r0) = (case cs of [] \<Rightarrow> ([], []) | c # r \<Rightarrow> if c = CHR ''-'' then ([c], r) else ([], cs))
      in case scan_int r0 of
           None \<Rightarrow> None
         | Some (ds, r1) \<Rightarrow>
             (case scan_frac r1 of
                None \<Rightarrow> None
              | Some (fr, r2) \<Rightarrow>
                  (case scan_exp r2 of
                     None \<Rightarrow> None
                   | Some (ex, r3) \<Rightarrow> Some (sign @ ds @ fr @ ex, r3))))"

fun parse_value :: "nat \<Rightarrow> string \<Rightarrow> (json \<times> string) option"
  and parse_elements :: "nat \<Rightarrow> json list \<Rightarrow> string \<Rightarrow> (json \<times> string) option"
  and parse_members :: "nat \<Rightarrow> (string \<times> json) list \<Rightarrow> string \<Rightarrow> (json \<times> string) option" where
  "parse_value 0 cs = None"
| "parse_value (Suc n) cs =
     (case skip_ws cs of
        [] \<Rightarrow> None
      | c # r \<Rightarrow>
          if c = CHR ''n'' then (if take 3 r = ''ull'' then Some (JNull, drop 3 r) else None)
          else if c = CHR ''t'' then (if take 3 r = ''rue'' then Some (JBool True, drop 3 r) else None)
          else if c = CHR ''f'' then (if take 4 r = ''alse'' then Some (JBool False, drop 4 r) else None)
          else if c = CHR 0x22 then
            (case scan_string [] r of None \<Rightarrow> None | Some (s, r') \<Rightarrow> Some (JStr s, r'))
          else if c = CHR ''['' then
            (case skip_ws r of
               [] \<Rightarrow> None
             | d # r' \<Rightarrow> if d = CHR '']'' then Some (JArr [], r') else parse_elements n [] r)
          else if c = CHR ''{'' then
            (case skip_ws r of
               [] \<Rightarrow> None
             | d # r' \<Rightarrow> if d = CHR ''}'' then Some (JObj [], r') else parse_members n [] r)
          else
            (case scan_number (c # r) of None \<Rightarrow> None | Some (l, r') \<Rightarrow> Some (JNum l, r')))"
| "parse_elements 0 acc cs = None"
| "parse_elements (Suc n) acc cs =
     (case parse_value n cs of
        None \<Rightarrow> None
      | Some (v, r) \<Rightarrow>
          (case skip_ws r of
             [] \<Rightarrow> None
           | d # r' \<Rightarrow>
               if d = CHR '','' then parse_elements n (v # acc) r'
               else if d = CHR '']'' then Some (JArr (rev (v # acc)), r')
               else None))"
| "parse_members 0 acc cs = None"
| "parse_members (Suc n) acc cs =
     (case skip_ws cs of
        [] \<Rightarrow> None
      | q # r \<Rightarrow>
          if q \<noteq> CHR 0x22 then None
          else
            (case scan_string [] r of
               None \<Rightarrow> None
             | Some (k, r1) \<Rightarrow>
                 (case skip_ws r1 of
                    [] \<Rightarrow> None
                  | colon # r2 \<Rightarrow>
                      if colon \<noteq> CHR '':'' then None
                      else
                        (case parse_value n r2 of
                           None \<Rightarrow> None
                         | Some (v, r3) \<Rightarrow>
                             (case skip_ws r3 of
                                [] \<Rightarrow> None
                              | d # r4 \<Rightarrow>
                                  if d = CHR '','' then parse_members n ((k, v) # acc) r4
                                  else if d = CHR ''}'' then Some (JObj (rev ((k, v) # acc)), r4)
                                  else None)))))"

definition JSON_parse :: "string \<Rightarrow> error + json" where
  "JSON_parse text =
     (case parse_value (2 * length text + 2) text of
        None \<Rightarrow> Inl SyntaxError
      | Some (v, r) \<Rightarrow> if skip_ws r = [] then Inr v else Inl SyntaxError)"

fun commas :: "string list \<Rightarrow> string" where
  "commas [] = []"
| "commas [x] = x"
| "commas (x # y # ys) = x @ '','' @ commas (y # ys)"

definition quoted :: "string \<Rightarrow> string" where
  "quoted s = CHR 0x22 # s @ [CHR 0x22]"

fun JSON_stringify :: "json \<Rightarrow> string" where
  "JSON_stringify JNull = ''null''"
| "JSON_stringify (JBool b) = (if b then ''true'' else ''false'')"
| "JSON_stringify (JNum l) = l"
| "JSON_stringify (JStr s) = quoted s"
| "JSON_stringify (JArr vs) = ''['' @ commas (map JSON_stringify vs) @ '']''"
| "JSON_stringify (JObj ms) =
     ''{'' @ commas (map (\<lambda>m. quoted (fst m) @ '':'' @ JSON_stringify (snd m)) ms) @ ''}''"

section \<open>Persisting links\<close>

text \<open>
  \<^verbatim>\<open>useLocalStorage( key, state )\<close> works through four collaborators: the two JSON
  built-ins and the static helpers \<^verbatim>\<open>Link.setValues\<close> and \<^verbatim>\<open>Link.getValues\<close> of
  \<^verbatim>\<open>./link\<close>, outside \<^verbatim>\<open>hooks.ts\<close>. The hook takes them as a record, so what is proved of it holds whatever they compute: \<open>'l\<close> is the collection
  of links (\<^verbatim>\<open>LinksHash\<close>), \<open>'j\<close> the decoded data, \<open>'w\<close> the state the links'
  setters act on.
\<close>

record ('j, 'l, 'w) collaborators =
  parse :: "string \<Rightarrow> error + 'j"
  stringify :: "'j \<Rightarrow> string"
  setValues :: "'l \<Rightarrow> 'j \<Rightarrow> 'w \<Rightarrow> 'w"
  getValues :: "'l \<Rightarrow> 'j"

type_synonym localStorage = "string \<Rightarrow> string option"

definition getItem :: "localStorage \<Rightarrow> string \<Rightarrow> string option" where
  "getItem store key = store key"

definition setItem :: "string \<Rightarrow> string \<Rightarrow> localStorage \<Rightarrow> localStorage" where
  "setItem key text store = store(key \<mapsto> text)"

text \<open>
  \<^verbatim>\<open>localStorage.getItem( key ) || '{}'\<close>: \<^verbatim>\<open>getItem\<close> gives \<^verbatim>\<open>null\<close> for a key that
  is not there, and \<^verbatim>\<open>||\<close> takes its right side for \<^verbatim>\<open>null\<close> and for the empty string.
\<close>

definition item_or_default :: "localStorage \<Rightarrow> string \<Rightarrow> string" where
  "item_or_default store key =
     (case getItem store key of None \<Rightarrow> ''{}'' | Some text \<Rightarrow> if text = [] then ''{}'' else text)"

text \<open>
  The instance keeps the ref \<^verbatim>\<open>stateRef\<close>, written at every render, and the key of the
  first render, which the cleanup closes over (the effect has the empty dependency list,
  so the host keeps the cleanup of its only run). An exception of \<^verbatim>\<open>JSON.parse\<close> is
  not caught: it leaves the effect, and the result is \<open>Inl\<close>.
\<close>

record 'l storage_inst =
  stateRef_current :: 'l
  cleanup_key :: string

definition useLocalStorage_mount ::
  "('j, 'l, 'w) collaborators \<Rightarrow> string \<Rightarrow> 'l \<Rightarrow> localStorage \<Rightarrow> 'w
     \<Rightarrow> error + ('l storage_inst \<times> 'w)" where
  "useLocalStorage_mount env key links store w =
     (let stateRef = \<lparr>stateRef_current = links, cleanup_key = key\<rparr> in
      case parse env (item_or_default store key) of
        Inl e \<Rightarrow> Inl e
      | Inr savedData \<Rightarrow> Inr (stateRef, setValues env (stateRef_current stateRef) savedData w))"

definition useLocalStorage_rerender :: "string \<Rightarrow> 'l \<Rightarrow> 'l storage_inst \<Rightarrow> 'l storage_inst" where
  "useLocalStorage_rerender key links i = i\<lparr>stateRef_current := links\<rparr>"

definition useLocalStorage_unmount ::
  "('j, 'l, 'w) collaborators \<Rightarrow> 'l storage_inst \<Rightarrow> localStorage \<Rightarrow> localStorage" where
  "useLocalStorage_unmount env i store =
     (let dataToSave = getValues env (stateRef_current i)
      in setItem (cleanup_key i) (stringify env dataToSave) store)"

fun rerenders :: "(string \<times> 'l) list \<Rightarrow> 'l storage_inst \<Rightarrow> 'l storage_inst" where
  "rerenders [] i = i"
| "rerenders ((key, links) # rs) i = rerenders rs (useLocalStorage_rerender key links i)"

text \<open>A named collection of links (\<^verbatim>\<open>LinksHash\<close>): names with their links.\<close>

type_synonym ('v, 'h, 'w) links = "(string \<times> ('v, 'h, 'w) link) list"

text \<open>
  Modelled from the spec: the batch read of the base link type, which \<^verbatim>\<open>./link\<close>
  would define and the spec gives as \<^verbatim>\<open>getValues(namedLinks) -> {key: value}\<close>.
\<close>

definition Link_getValues :: "(json, 'h, 'w) links \<Rightarrow> json" where
  "Link_getValues links = JObj (map (\<lambda>m. (fst m, link_value (snd m))) links)"

text \<open>
  Modelled from the spec: the batch write of the base link type, which \<^verbatim>\<open>./link\<close>
  would define and the spec gives as \<^verbatim>\<open>setValues(namedLinks, {key: value})\<close>, applying
  the external values into the corresponding links' \<^verbatim>\<open>set\<close>. A link whose name the
  data does not have is left alone; of a name written twice the last value counts, as
  in the object \<^verbatim>\<open>JSON.parse\<close> makes.
\<close>

fun json_member :: "json \<Rightarrow> string \<Rightarrow> json option" where
  "json_member (JObj ms) k = map_of (rev ms) k"
| "json_member j k = None"

fun Link_setValues :: "(json, 'h, 'w) links \<Rightarrow> json \<Rightarrow> 'w \<Rightarrow> 'w" where
  "Link_setValues [] source w = w"
| "Link_setValues ((k, l) # links) source w =
     Link_setValues links source
       (case json_member source k of None \<Rightarrow> w | Some v \<Rightarrow> link_set l (Val v) w)"

definition browser :: "(json, (json, 'h, 'w) links, 'w) collaborators" where
  "browser = \<lparr>parse = JSON_parse, stringify = JSON_stringify,
               setValues = Link_setValues, getValues = Link_getValues\<rparr>"

section \<open>The readiness tracker\<close>

text \<open>
  \<^verbatim>\<open>useIO( fun, condition )\<close> keeps the counter of open requests in a safe link of type
  \<^verbatim>\<open>number\<close>, started at \<^verbatim>\<open>null\<close>: \<open>None\<close> is \<^verbatim>\<open>null\<close>, and the numbers the
  counter takes are integers. The two functional updates are
  \<^verbatim>\<open>x => ( x || 0 ) + 1\<close>, where \<^verbatim>\<open>||\<close> takes \<^verbatim>\<open>0\<close> for \<^verbatim>\<open>null\<close> and for \<^verbatim>\<open>0\<close>, and
  \<^verbatim>\<open>x => x - 1\<close>, where \<^verbatim>\<open>null\<close> counts as \<^verbatim>\<open>0\<close>. The hook returns
  \<^verbatim>\<open>$isReady.value === null ? false : !$isReady.value\<close>.
\<close>

definition or_zero :: "int option \<Rightarrow> int" where
  "or_zero x = (case x of None \<Rightarrow> 0 | Some n \<Rightarrow> if n = 0 then 0 else n)"

definition increment :: "(int option, 'h) setarg" where
  "increment = Fn (\<lambda>x h. (Some (or_zero x + 1), h))"

definition decrement :: "(int option, 'h) setarg" where
  "decrement = Fn (\<lambda>x h. (Some ((case x of None \<Rightarrow> 0 | Some n \<Rightarrow> n) - 1), h))"

definition readiness :: "int option \<Rightarrow> bool" where
  "readiness v = (case v of None \<Rightarrow> False | Some n \<Rightarrow> n = 0)"

text \<open>
  \<^verbatim>\<open>fun\<close> is taken at its type \<^verbatim>\<open>() => Promise<any>\<close>: a call returns a promise.
  Promises are named by the order in which the tracker obtained them, and \<open>inflight\<close>
  lists the promises not settled yet. \<^verbatim>\<open>fun().finally( cb )\<close> makes a second promise: when the first settles, \<^verbatim>\<open>cb\<close> runs,
  and as this \<^verbatim>\<open>cb\<close> does not throw, the second settles the way the first did; nothing
  handles it. \<open>chained\<close> lists these outcomes. \<open>io_condition\<close> is the dependency list
  of the last render; the host compares it with that of the next render, and after the
  first render and after a render where they differ it has the effect of that render to
  run: \<open>effect_due\<close>.
\<close>

datatype 'x outcome = Resolved 'x | Rejected 'x

record ('c, 'x, 'h) io_inst =
  isReady :: "(int option, 'h) safe_inst"
  io_condition :: "'c list"
  effect_due :: bool
  inflight :: "nat list"
  issued :: nat
  chained :: "(nat \<times> 'x outcome) list"

definition useIO_mount :: "'c list \<Rightarrow> bool \<times> ('c, 'x, 'h) io_inst" where
  "useIO_mount condition =
     (case useSafeLink_mount (Init None) of (l, s) \<Rightarrow>
        (readiness (link_value l),
         \<lparr>isReady = s, io_condition = condition, effect_due = True, inflight = [], issued = 0,
          chained = []\<rparr>))"

definition useIO_rerender ::
  "'c list \<Rightarrow> ('c, 'x, 'h) io_inst \<Rightarrow> 'h \<Rightarrow> (bool \<times> ('c, 'x, 'h) io_inst) \<times> 'h" where
  "useIO_rerender condition i h =
     (case useSafeLink_rerender (isReady i) h of ((l, s), h') \<Rightarrow>
        ((readiness (link_value l),
          i\<lparr>isReady := s, io_condition := condition,
            effect_due := (condition \<noteq> io_condition i)\<rparr>), h'))"

definition useIO_effect :: "('c, 'x, 'h) io_inst \<Rightarrow> ('c, 'x, 'h) io_inst" where
  "useIO_effect i =
     i\<lparr>isReady := useSafeLink_set increment (isReady i),
       inflight := inflight i @ [issued i],
       issued := Suc (issued i),
       effect_due := False\<rparr>"

definition useIO_settle :: "nat \<Rightarrow> 'x outcome \<Rightarrow> ('c, 'x, 'h) io_inst \<Rightarrow> ('c, 'x, 'h) io_inst" where
  "useIO_settle p out i =
     (if p \<in> set (inflight i)
      then i\<lparr>isReady := useSafeLink_set decrement (isReady i),
             inflight := removeAll p (inflight i),
             chained := chained i @ [(p, out)]\<rparr>
      else i)"

definition useIO_unmount :: "('c, 'x, 'h) io_inst \<Rightarrow> ('c, 'x, 'h) io_inst" where
  "useIO_unmount i = i\<lparr>isReady := useSafeLink_unmount (isReady i)\<rparr>"

text \<open>
  What can happen to a tracker after its first render: the host renders it again (with
  the dependency list of that render), the host runs the effect of the last render, a
  promise settles, or the host tears the instance down. The host runs the effect of a
  render some time after it, so a promise may settle in between; it runs an effect still
  due before it renders again (\<open>io_render\<close>), and it neither renders an instance it has
  torn down nor runs its effects.
\<close>

datatype ('c, 'x) io_event = Render "'c list" | Effect | Settle nat "'x outcome" | Unmount

definition io_live :: "('c, 'x, 'h) io_inst \<Rightarrow> bool" where
  "io_live i = cleanup_due (safe_mounted (isReady i))"

definition io_flush :: "('c, 'x, 'h) io_inst \<Rightarrow> ('c, 'x, 'h) io_inst" where
  "io_flush i = (if effect_due i then useIO_effect i else i)"

definition io_render ::
  "'c list \<Rightarrow> ('c, 'x, 'h) io_inst \<times> 'h \<Rightarrow> (bool \<times> ('c, 'x, 'h) io_inst) \<times> 'h" where
  "io_render condition st = useIO_rerender condition (io_flush (fst st)) (snd st)"

fun io_step :: "('c, 'x) io_event \<Rightarrow> ('c, 'x, 'h) io_inst \<times> 'h \<Rightarrow> ('c, 'x, 'h) io_inst \<times> 'h" where
  "io_step (Render condition) (i, h) =
     (if io_live i then (case io_render condition (i, h) of ((ready, i'), h') \<Rightarrow> (i', h'))
      else (i, h))"
| "io_step Effect (i, h) = (if io_live i then (io_flush i, h) else (i, h))"
| "io_step (Settle p out) (i, h) = (useIO_settle p out i, h)"
| "io_step Unmount (i, h) = (useIO_unmount i, h)"

fun io_run :: "('c, 'x) io_event list \<Rightarrow> ('c, 'x, 'h) io_inst \<times> 'h \<Rightarrow> ('c, 'x, 'h) io_inst \<times> 'h" where
  "io_run [] st = st"
| "io_run (e # es) st = io_run es (io_step e st)"

definition counter_now :: "('c, 'x, 'h) io_inst \<Rightarrow> 'h \<Rightarrow> int option" where
  "counter_now i h = fst (run_queue (queue (safe_cell (isReady i))) (cur (safe_cell (isReady i))) h)"

section \<open>A heap of flat objects\<close>

text \<open>
  Objects with numeric properties, addressed by their position in the heap; a value of
  a link is such an address, and two values are the same reference when the addresses
  are equal.
\<close>

type_synonym obj = "(string \<times> int) list"

type_synonym heap = "obj list"

text \<open>
  Modelled from the spec: the clone helper of \<^verbatim>\<open>./helpers\<close>, which the spec calls a
  deep clone by value. On a flat object that is a new object with the same properties;
  an address outside the heap is left as it is.
\<close>

definition clone_obj :: "nat \<Rightarrow> heap \<Rightarrow> nat \<times> heap" where
  "clone_obj a h = (if a < length h then (length h, h @ [h ! a]) else (a, h))"

fun put_prop :: "string \<Rightarrow> int \<Rightarrow> obj \<Rightarrow> obj" where
  "put_prop k v [] = [(k, v)]"
| "put_prop k v (p # ps) = (if fst p = k then (k, v) # ps else p # put_prop k v ps)"

text \<open>The transform \<^verbatim>\<open>draft => { draft.n = v }\<close>: it writes to the draft and returns nothing.\<close>

definition assign_n :: "int \<Rightarrow> nat \<Rightarrow> unit option \<Rightarrow> heap \<Rightarrow> nat option \<times> heap" where
  "assign_n v draft event h =
     (None, if draft < length h then h[draft := put_prop ''n'' v (h ! draft)] else h)"

text \<open>The transform \<^verbatim>\<open>draft => { draft.n = v; return draft }\<close>.\<close>

definition assign_return :: "int \<Rightarrow> nat \<Rightarrow> unit option \<Rightarrow> heap \<Rightarrow> nat option \<times> heap" where
  "assign_return v draft event h = (Some draft, snd (assign_n v draft event h))"

section \<open>Instances\<close>

text \<open>
  A safe link over a reference into the heap of flat objects, after its first render;
  a safe link over a number, and one over a reference, each mounted and then torn down.
\<close>

definition mounted_ref :: "(nat, heap) safe_inst" where
  "mounted_ref = snd (useSafeLink_mount (Init 0))"

definition torn_down_counter :: "(int, unit) safe_inst" where
  "torn_down_counter = useSafeLink_unmount (snd (useSafeLink_mount (Init 0)))"

definition torn_down_ref :: "(nat, heap) safe_inst" where
  "torn_down_ref = useSafeLink_unmount (snd (useSafeLink_mount (Init 0)))"

text \<open>
  A tracker after its first render, with the dependency list \<^verbatim>\<open>[0]\<close>. In
  \<open>overlapping\<close> the effect of the first render issues promise 0, the dependency list
  changes, the effect of that render issues promise 1 while promise 0 is in flight, and
  promise 1 settles first.
\<close>

definition tracker0 :: "(nat, unit, unit) io_inst \<times> unit" where
  "tracker0 = (snd (useIO_mount [0]), ())"

definition overlapping :: "(nat, unit) io_event list" where
  "overlapping = [Effect, Render [1], Effect, Settle 1 (Resolved ())]"

text \<open>
  Bound links after their first render and its effect, with a source of value 1; two
  source link objects, at different addresses, both with the value 2.
\<close>

definition source_b :: "(int, unit, (int, unit) cell) source" where
  "source_b = OfLink 6 (UseStateLink 2 setState)"

definition source_b' :: "(int, unit, (int, unit) cell) source" where
  "source_b' = OfLink 7 (UseStateLink 2 setState)"

definition bound1 :: "(int, unit) bound_inst" where
  "bound1 =
     useBoundLink_effect (snd (useBoundLink_mount (Bare 1 :: (int, unit, (int, unit) cell) source)))"

definition sbound1 :: "(int, unit) safe_bound_inst" where
  "sbound1 =
     useSafeBoundLink_effect
       (snd (useSafeBoundLink_mount (Bare 1 :: (int, unit, (int, unit) cell) source)))"

text \<open>
  The same instances after a render that finds the source at address 6, a call of
  \<^verbatim>\<open>set( 7 )\<close> by the caller on the link of that render, and the effect of that render.
\<close>

definition bound2 :: "(int, unit) bound_inst" where
  "bound2 =
     (case useBoundLink_rerender source_b bound1 () of
        ((l, s), h) \<Rightarrow> useBoundLink_effect (fold (bound_call l) [Val 7] s))"

definition sbound2 :: "(int, unit) safe_bound_inst" where
  "sbound2 =
     (case useSafeBoundLink_rerender source_b sbound1 () of
        ((l, s), h) \<Rightarrow> useSafeBoundLink_effect (fold (sbound_call l) [Val 7] s))"

text \<open>A collection of one link, named \<^verbatim>\<open>a\<close>, over a state cell that holds a number.\<close>

definition links_a :: "string \<Rightarrow> (json, unit, (json, unit) cell) links" where
  "links_a n = [(''a'', UseStateLink (JNum n) setState)]"

definition cell_a :: "(json, unit) cell" where
  "cell_a = \<lparr>cur = JNum ''1'', queue = []\<rparr>"

section \<open>The invariant of the readiness counter\<close>

text \<open>
  While the instance is live, its mount flag is set, the promises in flight are distinct
  and were all issued, the first effect is due as long as no promise was issued, and
  working off the requested updates leaves the counter at \<^verbatim>\<open>null\<close> before the first
  promise is issued and at the number of promises in flight from then on, whatever the
  heap, which the updates do not touch.
\<close>

definition io_inv :: "('c, 'x, 'h) io_inst \<Rightarrow> bool" where
  "io_inv i =
     (io_live i \<longrightarrow>
        isMounted_current (safe_mounted (isReady i)) \<and> distinct (inflight i) \<and>
        (\<forall>p \<in> set (inflight i). p < issued i) \<and> (issued i = 0 \<longrightarrow> effect_due i) \<and>
        (\<forall>h. run_queue (queue (safe_cell (isReady i))) (cur (safe_cell (isReady i))) h
               = (if issued i = 0 then None else Some (int (length (inflight i))), h)))"

section \<open>Working off the queue\<close>

lemma run_queue_append:
  "run_queue (as @ bs) x h = (case run_queue as x h of (x', h') \<Rightarrow> run_queue bs x' h')"
  by (induction as arbitrary: x h) (auto split: prod.splits)

lemma rerender_after_setState:
  "useState_rerender (setState a c) h =
     (case useState_rerender c h of (c1, h1) \<Rightarrow>
      case apply_setarg a (cur c1) h1 of (x, h2) \<Rightarrow> (\<lparr>cur = x, queue = []\<rparr>, h2))"
  by (simp add: useState_rerender_def setState_def run_queue_append split: prod.splits)

section \<open>What \<open>update\<close> commits\<close>

text \<open>
  C1, as the code has it. For every state cell, every transform \<open>f\<close>, every clone
  helper and every heap: let \<open>x\<close> be the value the cell has once the requests made
  before are worked off. Through a link of \<^verbatim>\<open>useLink\<close>, at the next render
  \<open>update\<close> clones \<open>x\<close>, calls \<open>f\<close> on the clone, and the cell takes \<open>f\<close>'s
  result when it is defined. When \<open>f\<close> returns \<^verbatim>\<open>undefined\<close> the cell keeps \<open>x\<close>
  itself, the reference it had: the clone, with whatever \<open>f\<close> wrote to it, is left in
  the heap and not committed. Through a link of \<^verbatim>\<open>useSafeLink\<close> the same holds while
  the mount flag is set: \<open>update\<close> does to the cell of the instance what it does
  through a link of \<^verbatim>\<open>useLink\<close>. Once the mount flag is false, \<open>update\<close> through
  a link of \<^verbatim>\<open>useSafeLink\<close> commits nothing, whatever \<open>f\<close> returns: the instance
  stays as it was.
\<close>

theorem update_commits:
  "useState_rerender (update clone (UseStateLink v setState) f event c) h =
     (case useState_rerender c h of (c1, h1) \<Rightarrow>
      case clone (cur c1) h1 of (draft, h2) \<Rightarrow>
      case f draft event h2 of (result, h3) \<Rightarrow>
        (\<lparr>cur = (case result of None \<Rightarrow> cur c1 | Some r \<Rightarrow> r), queue = []\<rparr>, h3)) \<and>
   (isMounted_current (safe_mounted s) \<longrightarrow>
      update clone (UseStateLink v useSafeLink_set) f event s =
        s\<lparr>safe_cell := update clone (UseStateLink v setState) f event (safe_cell s)\<rparr>) \<and>
   (\<not> isMounted_current (safe_mounted t) \<longrightarrow>
      update clone (UseStateLink v useSafeLink_set) f event t = t)"
  by (simp add: update_def UseStateLink_def rerender_after_setState update_fn_def
      useSafeLink_set_def split: prod.splits)

text \<open>
  An instance: the value is the object at address 0, \<^verbatim>\<open>{ n: 0 }\<close>; the transform
  writes \<^verbatim>\<open>n = 1\<close> to its draft and returns the draft. Through the link of
  \<^verbatim>\<open>useLink\<close> and through the safe link of a mounted instance, the clone is the object
  at address 1, and it is committed. Through the safe link of the instance torn down,
  the cell keeps address 0 and no clone is in the heap.
\<close>

theorem update_commits_witness:
  "useState_rerender
     (update clone_obj (UseStateLink 0 setState) (assign_return 1) None \<lparr>cur = 0, queue = []\<rparr>)
     [[(''n'', 0)]]
   = (\<lparr>cur = 1, queue = []\<rparr>, [[(''n'', 0)], [(''n'', 1)]]) \<and>
   isMounted_current (safe_mounted mounted_ref) \<and>
   useState_rerender
     (safe_cell (update clone_obj (UseStateLink 0 useSafeLink_set) (assign_return 1) None mounted_ref))
     [[(''n'', 0)]]
   = (\<lparr>cur = 1, queue = []\<rparr>, [[(''n'', 0)], [(''n'', 1)]]) \<and>
   \<not> isMounted_current (safe_mounted torn_down_ref) \<and>
   useState_rerender
     (safe_cell (update clone_obj (UseStateLink 0 useSafeLink_set) (assign_return 1) None torn_down_ref))
     [[(''n'', 0)]]
   = (\<lparr>cur = 0, queue = []\<rparr>, [[(''n'', 0)]])"
proof -
  have m: "isMounted_current (safe_mounted mounted_ref)"
    and c: "safe_cell mounted_ref = \<lparr>cur = 0, queue = []\<rparr>"
    by (simp_all add: mounted_ref_def useSafeLink_mount_def useIsMountedRef_mount_def
        useState_mount_def Let_def)
  have d: "\<not> isMounted_current (safe_mounted torn_down_ref)"
    and e: "safe_cell torn_down_ref = \<lparr>cur = 0, queue = []\<rparr>"
    by (simp_all add: torn_down_ref_def useSafeLink_mount_def useIsMountedRef_mount_def
        useSafeLink_unmount_def useIsMountedRef_unmount_def useState_mount_def Let_def)
  note t = update_commits [where clone = clone_obj and v = 0 and f = "assign_return 1"
      and event = None and c = "\<lparr>cur = 0, queue = []\<rparr>" and h = "[[(''n'', 0)]]"
      and s = mounted_ref and t = torn_down_ref]
  from t m c
  have a: "useState_rerender
     (update clone_obj (UseStateLink 0 setState) (assign_return 1) None \<lparr>cur = 0, queue = []\<rparr>)
     [[(''n'', 0)]]
   = (\<lparr>cur = 1, queue = []\<rparr>, [[(''n'', 0)], [(''n'', 1)]])"
    and b: "useState_rerender
     (safe_cell (update clone_obj (UseStateLink 0 useSafeLink_set) (assign_return 1) None mounted_ref))
     [[(''n'', 0)]]
   = (\<lparr>cur = 1, queue = []\<rparr>, [[(''n'', 0)], [(''n'', 1)]])"
    by (simp_all add: useState_rerender_def clone_obj_def assign_return_def assign_n_def)
  from t d e
  have g: "useState_rerender
     (safe_cell (update clone_obj (UseStateLink 0 useSafeLink_set) (assign_return 1) None torn_down_ref))
     [[(''n'', 0)]]
   = (\<lparr>cur = 0, queue = []\<rparr>, [[(''n'', 0)]])"
    by (simp add: useState_rerender_def)
  from a m b d g show ?thesis by blast
qed

text \<open>
  C1 as stated fails where the transform returns \<^verbatim>\<open>undefined\<close>. The link of
  \<^verbatim>\<open>useLink\<close> holds the object at address 0, \<^verbatim>\<open>{ n: 0 }\<close>; the transform writes
  \<^verbatim>\<open>n = 1\<close> to its draft and returns nothing. The draft is the object at address 1, the
  transform returns \<^verbatim>\<open>undefined\<close> on it, and the value committed at the next render is
  address 0, the original, whose object is still \<^verbatim>\<open>{ n: 0 }\<close>; the written draft
  \<^verbatim>\<open>{ n: 1 }\<close> stays behind at address 1.
\<close>

theorem update_undefined_keeps_original:
  "fst (clone_obj 0 [[(''n'', 0)]]) = 1 \<and>
   fst (assign_n 1 1 None (snd (clone_obj 0 [[(''n'', 0)]]))) = None \<and>
   useState_rerender
      (update clone_obj (fst (useLink_mount (Init 0))) (assign_n 1) None
         (snd (useLink_mount (Init 0)))) [[(''n'', 0)]]
     = (\<lparr>cur = 0, queue = []\<rparr>, [[(''n'', 0)], [(''n'', 1)]])"
  by (simp add: clone_obj_def assign_n_def useLink_mount_def useState_mount_def update_def
      UseStateLink_def setState_def useState_rerender_def update_fn_def)

section \<open>Safe links after teardown\<close>

lemma unmount_clears_flag:
  "cleanup_due (safe_mounted s) \<Longrightarrow>
     \<not> isMounted_current (safe_mounted (useSafeLink_unmount s))"
  by (simp add: useSafeLink_unmount_def useIsMountedRef_unmount_def)

text \<open>
  C2. Once the mount flag is false, any number of calls of \<^verbatim>\<open>set\<close> of a safe link
  (made at any render: every one carries the same guarded setter), with values or with
  functions, returns the instance as it was: the value of the cell is the same and no
  update is requested of the host. The setter has no path that throws: it reads the
  flag and stops, and calls nothing it is given.
\<close>

theorem safe_set_after_teardown:
  "\<not> isMounted_current (safe_mounted s) \<Longrightarrow>
     fold (link_set (UseStateLink v useSafeLink_set)) xs s = s"
  by (induction xs) (simp_all add: UseStateLink_def useSafeLink_set_def)

theorem safe_set_after_teardown_witness:
  "\<not> isMounted_current (safe_mounted torn_down_counter) \<and>
   fold (link_set (UseStateLink 0 useSafeLink_set)) [Val 1, Fn (\<lambda>x h. (x + 1, h))]
     torn_down_counter = torn_down_counter"
proof -
  have down: "\<not> isMounted_current (safe_mounted torn_down_counter)"
    by (simp add: torn_down_counter_def useSafeLink_mount_def useIsMountedRef_mount_def
        useSafeLink_unmount_def useIsMountedRef_unmount_def Let_def)
  from down
  have "fold (link_set (UseStateLink 0 useSafeLink_set)) [Val 1, Fn (\<lambda>x h. (x + 1, h))]
          torn_down_counter = torn_down_counter"
    by (rule safe_set_after_teardown)
  with down show ?thesis by blast
qed

text \<open>
  C9. Once the mount flag is false, \<open>update\<close> through a safe link (made at any render:
  every one carries the same guarded setter) returns the instance as it was, whatever
  the transform and the clone helper are. The function that would clone and call the
  transform is built and handed to the guarded setter, which drops it: it is not in the
  queue, so nothing runs it, and no update is requested of the host.
\<close>

theorem safe_update_after_teardown:
  "\<not> isMounted_current (safe_mounted s) \<Longrightarrow>
     update clone (UseStateLink v useSafeLink_set) f event s = s"
  by (simp add: update_def UseStateLink_def useSafeLink_set_def)

theorem safe_update_after_teardown_witness:
  "\<not> isMounted_current (safe_mounted torn_down_ref) \<and>
   update clone_obj (UseStateLink 0 useSafeLink_set) (assign_n 1) None torn_down_ref
     = torn_down_ref"
proof -
  have down: "\<not> isMounted_current (safe_mounted torn_down_ref)"
    by (simp add: torn_down_ref_def useSafeLink_mount_def useIsMountedRef_mount_def
        useSafeLink_unmount_def useIsMountedRef_unmount_def Let_def)
  from down
  have "update clone_obj (UseStateLink 0 useSafeLink_set) (assign_n 1) None torn_down_ref
          = torn_down_ref"
    by (rule safe_update_after_teardown)
  with down show ?thesis by blast
qed

section \<open>The mount flag over the life of an instance\<close>

lemma mount_trace_torn_down:
  "\<not> cleanup_due r \<Longrightarrow> mount_trace evs r = replicate (length evs) r"
proof (induction evs)
  case Nil
  then show ?case by simp
next
  case (Cons e evs)
  then have "mount_step e r = r"
    by (cases e) (simp_all add: useIsMountedRef_unmount_def)
  with Cons show ?case by simp
qed

text \<open>
  C7. The flag is true when the instance is made. Over every sequence of renders and
  teardowns that follows, it is true after each event before the first teardown and
  false after the first teardown and after every event that follows it: it changes
  once, at the teardown, and not again.
\<close>

theorem mount_flag_trace:
  "isMounted_current useIsMountedRef_mount \<and>
   map isMounted_current (mount_trace evs useIsMountedRef_mount) =
     replicate (length (takeWhile (\<lambda>e. e \<noteq> Teardown) evs)) True @
     replicate (length (dropWhile (\<lambda>e. e \<noteq> Teardown) evs)) False"
proof (induction evs)
  case Nil
  then show ?case by (simp add: useIsMountedRef_mount_def)
next
  case (Cons e evs)
  show ?case
  proof (cases e)
    case Rerender
    then have "mount_step e useIsMountedRef_mount = useIsMountedRef_mount"
      by (simp add: useIsMountedRef_rerender_def)
    with Cons Rerender show ?thesis by simp
  next
    case Teardown
    let ?d = "mount_step e useIsMountedRef_mount"
    have d: "\<not> cleanup_due ?d" "\<not> isMounted_current ?d"
      using Teardown by (simp_all add: useIsMountedRef_unmount_def useIsMountedRef_mount_def)
    then have "mount_trace evs ?d = replicate (length evs) ?d"
      by (simp add: mount_trace_torn_down)
    with d Teardown Cons show ?thesis by simp
  qed
qed

theorem mount_flag_trace_witness:
  "map isMounted_current (mount_trace [Rerender, Rerender, Teardown, Rerender] useIsMountedRef_mount)
     = [True, True, False, False]"
  using mount_flag_trace [of "[Rerender, Rerender, Teardown, Rerender]"] by simp

section \<open>Bound links follow their source\<close>

lemma last_request_wins: "fst (run_queue (q @ [Val b]) x h) = b"
  by (simp add: run_queue_append split: prod.splits)

lemma bound_calls:
  "fold (bound_call (UseStateLink v setState)) xs s =
     s\<lparr>bound_cell := (bound_cell s)\<lparr>queue := queue (bound_cell s) @ xs\<rparr>\<rparr>"
  by (induction xs arbitrary: s) (simp_all add: bound_call_def UseStateLink_def setState_def)

lemma sbound_calls:
  "isMounted_current (safe_mounted (sbound_inner s)) \<Longrightarrow>
   fold (sbound_call (UseStateLink v useSafeLink_set)) xs s =
     s\<lparr>sbound_inner := (sbound_inner s)\<lparr>safe_cell :=
         (safe_cell (sbound_inner s))\<lparr>queue := queue (safe_cell (sbound_inner s)) @ xs\<rparr>\<rparr>\<rparr>"
  by (induction xs arbitrary: s)
    (simp_all add: sbound_call_def UseStateLink_def useSafeLink_set_def setState_def)

lemma bound_change:
  assumes "source_value src \<noteq> bound_deps s" "source_value src' = source_value src"
    and "useBoundLink_rerender src s h = ((l1, s1), h1)"
  shows "link_value (fst (fst (useBoundLink_rerender src'
            (useBoundLink_effect (fold (bound_call l1) xs s1)) h2))) = source_value src"
proof -
  obtain x where l1: "l1 = UseStateLink x setState"
    and s1: "s1 = \<lparr>bound_cell = \<lparr>cur = x, queue = []\<rparr>, bound_deps = source_value src,
                   bound_due = Some (l1, source_value src)\<rparr>"
    using assms(1,3)
    by (auto simp: useBoundLink_rerender_def useLink_rerender_def useState_rerender_def Let_def
        split: prod.splits)
  have "bound_cell (useBoundLink_effect (fold (bound_call l1) xs s1))
          = \<lparr>cur = x, queue = xs @ [Val (source_value src)]\<rparr>"
    unfolding l1 bound_calls
    by (simp add: useBoundLink_effect_def s1 l1 UseStateLink_def setState_def)
  then show ?thesis
    by (simp add: useBoundLink_rerender_def useLink_rerender_def useState_rerender_def
        UseStateLink_def last_request_wins Let_def case_prod_beta)
qed

lemma sbound_change:
  assumes "isMounted_current (safe_mounted (sbound_inner t))"
    and "source_value src \<noteq> sbound_deps t" "source_value src' = source_value src"
    and "useSafeBoundLink_rerender src t h = ((l1, t1), h1)"
  shows "link_value (fst (fst (useSafeBoundLink_rerender src'
            (useSafeBoundLink_effect (fold (sbound_call l1) xs t1)) h2))) = source_value src"
proof -
  obtain x where l1: "l1 = UseStateLink x useSafeLink_set"
    and t1: "t1 = \<lparr>sbound_inner = \<lparr>safe_cell = \<lparr>cur = x, queue = []\<rparr>,
                                    safe_mounted = safe_mounted (sbound_inner t)\<rparr>,
                   sbound_deps = source_value src, sbound_due = Some (l1, source_value src)\<rparr>"
    using assms(2,4)
    by (auto simp: useSafeBoundLink_rerender_def useSafeLink_rerender_def useState_rerender_def
        useIsMountedRef_rerender_def Let_def split: prod.splits)
  have m: "isMounted_current (safe_mounted (sbound_inner t1))"
    using assms(1) by (simp add: t1)
  have "safe_cell (sbound_inner (useSafeBoundLink_effect (fold (sbound_call l1) xs t1)))
          = \<lparr>cur = x, queue = xs @ [Val (source_value src)]\<rparr>"
    unfolding l1 sbound_calls [OF m] using assms(1)
    by (simp add: useSafeBoundLink_effect_def t1 l1 UseStateLink_def useSafeLink_set_def
        setState_def)
  then show ?thesis
    by (simp add: useSafeBoundLink_rerender_def useSafeLink_rerender_def useState_rerender_def
        UseStateLink_def last_request_wins Let_def case_prod_beta)
qed

text \<open>
  C6, for \<^verbatim>\<open>useBoundLink\<close> and for \<^verbatim>\<open>useSafeBoundLink\<close> on a mounted instance. Let the
  instance be in any state: whatever value its cell holds and whatever updates its
  caller has requested. When a render finds a source whose extracted value is not the one
  of the render before, then whatever the caller sets through the link of that render
  before the effect runs, once the effect has run the next render, with a source of the
  same extracted value, reads that value as the link's value. When a render finds a
  source whose extracted value is the one of the render before, the render only works
  off the requests made and leaves no effect to run, whether the source is the same
  link object, another link object or a bare value.
\<close>

theorem bound_link_follows_source:
  "(source_value src \<noteq> bound_deps s \<and> source_value src' = source_value src \<longrightarrow>
      (case useBoundLink_rerender src s h of ((l1, s1), h1) \<Rightarrow>
         link_value (fst (fst (useBoundLink_rerender src'
            (useBoundLink_effect (fold (bound_call l1) xs s1)) g))) = source_value src)) \<and>
   (source_value same = bound_deps s' \<longrightarrow>
      snd (fst (useBoundLink_rerender same s' h))
        = \<lparr>bound_cell = fst (useState_rerender (bound_cell s') h), bound_deps = bound_deps s',
           bound_due = None\<rparr>) \<and>
   (isMounted_current (safe_mounted (sbound_inner t)) \<and> source_value src \<noteq> sbound_deps t \<and>
    source_value src' = source_value src \<longrightarrow>
      (case useSafeBoundLink_rerender src t h of ((l1, t1), h1) \<Rightarrow>
         link_value (fst (fst (useSafeBoundLink_rerender src'
            (useSafeBoundLink_effect (fold (sbound_call l1) ys t1)) g))) = source_value src)) \<and>
   (source_value same = sbound_deps t' \<longrightarrow>
      snd (fst (useSafeBoundLink_rerender same t' h))
        = \<lparr>sbound_inner = snd (fst (useSafeLink_rerender (sbound_inner t') h)),
           sbound_deps = sbound_deps t', sbound_due = None\<rparr>)"
proof (intro conjI impI)
  assume "source_value src \<noteq> bound_deps s \<and> source_value src' = source_value src"
  then show "case useBoundLink_rerender src s h of ((l1, s1), h1) \<Rightarrow>
         link_value (fst (fst (useBoundLink_rerender src'
            (useBoundLink_effect (fold (bound_call l1) xs s1)) g))) = source_value src"
    by (auto simp: bound_change split: prod.splits)
next
  assume "source_value same = bound_deps s'"
  then show "snd (fst (useBoundLink_rerender same s' h))
        = \<lparr>bound_cell = fst (useState_rerender (bound_cell s') h), bound_deps = bound_deps s',
           bound_due = None\<rparr>"
    by (simp add: useBoundLink_rerender_def useLink_rerender_def Let_def split: prod.splits)
next
  assume "isMounted_current (safe_mounted (sbound_inner t)) \<and> source_value src \<noteq> sbound_deps t \<and>
    source_value src' = source_value src"
  then show "case useSafeBoundLink_rerender src t h of ((l1, t1), h1) \<Rightarrow>
         link_value (fst (fst (useSafeBoundLink_rerender src'
            (useSafeBoundLink_effect (fold (sbound_call l1) ys t1)) g))) = source_value src"
    by (auto simp: sbound_change split: prod.splits)
next
  assume "source_value same = sbound_deps t'"
  then show "snd (fst (useSafeBoundLink_rerender same t' h))
        = \<lparr>sbound_inner = snd (fst (useSafeLink_rerender (sbound_inner t') h)),
           sbound_deps = sbound_deps t', sbound_due = None\<rparr>"
    by (simp add: useSafeBoundLink_rerender_def Let_def split: prod.splits)
qed

lemmas bound_eval = bound1_def sbound1_def bound2_def sbound2_def source_b_def source_b'_def
  useBoundLink_mount_def useSafeBoundLink_mount_def useLink_mount_def useSafeLink_mount_def
  useState_mount_def useIsMountedRef_mount_def UseStateLink_def setState_def useSafeLink_set_def
  useBoundLink_effect_def useSafeBoundLink_effect_def bound_call_def sbound_call_def
  useBoundLink_rerender_def useLink_rerender_def useState_rerender_def
  useSafeBoundLink_rerender_def useSafeLink_rerender_def useIsMountedRef_rerender_def Let_def

text \<open>
  An instance: the source had the value 1 and becomes the link object at address 6 with
  the value 2; the caller sets 7 before the effect runs; the next render finds the link
  object at address 7, again with the value 2. It reads 2, and leaves no effect to run.
\<close>

theorem bound_link_follows_source_witness:
  "source_value source_b \<noteq> bound_deps bound1 \<and>
   source_value source_b' = source_value source_b \<and>
   link_value (fst (fst (useBoundLink_rerender source_b' bound2 ()))) = 2 \<and>
   source_value source_b' = bound_deps bound2 \<and>
   bound_due (snd (fst (useBoundLink_rerender source_b' bound2 ()))) = None \<and>
   isMounted_current (safe_mounted (sbound_inner sbound1)) \<and>
   source_value source_b \<noteq> sbound_deps sbound1 \<and>
   link_value (fst (fst (useSafeBoundLink_rerender source_b' sbound2 ()))) = 2 \<and>
   source_value source_b' = sbound_deps sbound2 \<and>
   sbound_due (snd (fst (useSafeBoundLink_rerender source_b' sbound2 ()))) = None"
proof -
  have a: "source_value source_b \<noteq> bound_deps bound1"
    and b: "source_value source_b' = bound_deps bound2"
    and c: "isMounted_current (safe_mounted (sbound_inner sbound1))"
    and d: "source_value source_b \<noteq> sbound_deps sbound1"
    and e: "source_value source_b' = sbound_deps sbound2"
    and v: "source_value source_b' = source_value source_b" "source_value source_b = 2"
    by (simp_all add: bound_eval)
  note t = bound_link_follows_source [where src = source_b and s = bound1 and h = "()"
      and src' = source_b' and xs = "[Val 7]" and g = "()" and same = source_b' and s' = bound2
      and t = sbound1 and ys = "[Val 7]" and t' = sbound2]
  from t a v
  have p1: "link_value (fst (fst (useBoundLink_rerender source_b' bound2 ()))) = 2"
    by (simp add: bound2_def case_prod_beta)
  from t b
  have p2: "bound_due (snd (fst (useBoundLink_rerender source_b' bound2 ()))) = None"
    by simp
  from t c d v
  have p3: "link_value (fst (fst (useSafeBoundLink_rerender source_b' sbound2 ()))) = 2"
    by (simp add: sbound2_def case_prod_beta)
  from t e
  have p4: "sbound_due (snd (fst (useSafeBoundLink_rerender source_b' sbound2 ()))) = None"
    by simp
  from a b c d e v p1 p2 p3 p4 show ?thesis by blast
qed

section \<open>Loading and saving in local storage\<close>

lemma parse_open_brace: "JSON_parse ''{'' = Inl SyntaxError"
  by code_simp

lemma parse_empty_object: "JSON_parse ''{}'' = Inr (JObj [])"
  by code_simp

lemma setValues_empty_object: "Link_setValues links (JObj []) w = w"
  by (induction links) auto

text \<open>
  C8, as the code has it. When the key is not in the store, or holds the empty string,
  the effect of the first render decodes the default text \<^verbatim>\<open>{}\<close> and applies the
  result to the links. Any other content goes to \<^verbatim>\<open>JSON.parse\<close> as it is: when
  \<^verbatim>\<open>JSON.parse\<close> throws on it, the exception leaves the effect, and no value is applied.
\<close>

theorem load_on_mount:
  "(getItem store key = None \<or> getItem store key = Some [] \<longrightarrow>
      useLocalStorage_mount env key links store w =
        (case parse env ''{}'' of
           Inl e \<Rightarrow> Inl e
         | Inr d \<Rightarrow> Inr (\<lparr>stateRef_current = links, cleanup_key = key\<rparr>, setValues env links d w))) \<and>
   (parse env (item_or_default store' key) = Inl e \<longrightarrow>
      useLocalStorage_mount env key links store' w = Inl e)"
  by (auto simp: useLocalStorage_mount_def item_or_default_def split: sum.splits)

text \<open>
  An instance with the browser's collaborators: with an empty store the links are left
  as they are (the empty object names none of them); with the content \<^verbatim>\<open>{\<close> the load
  ends in a \<^verbatim>\<open>SyntaxError\<close>.
\<close>

theorem load_on_mount_witness:
  "getItem Map.empty ''k'' = None \<and>
   useLocalStorage_mount browser ''k'' (links_a ''1'') Map.empty cell_a
     = Inr (\<lparr>stateRef_current = links_a ''1'', cleanup_key = ''k''\<rparr>, cell_a) \<and>
   parse browser (item_or_default [''k'' \<mapsto> ''{''] ''k'') = Inl SyntaxError \<and>
   useLocalStorage_mount browser ''k'' (links_a ''1'') [''k'' \<mapsto> ''{''] cell_a = Inl SyntaxError"
  using load_on_mount [where store = Map.empty and key = "''k''" and env = browser
      and links = "links_a ''1''" and w = cell_a and store' = "[''k'' \<mapsto> ''{'']" and e = SyntaxError]
  by (simp add: getItem_def browser_def item_or_default_def parse_open_brace
        parse_empty_object setValues_empty_object)

text \<open>
  C8 as stated fails on malformed content. The store holds the text \<^verbatim>\<open>{\<close> under the
  key; \<^verbatim>\<open>JSON.parse\<close> throws a \<^verbatim>\<open>SyntaxError\<close> on it, and so does the load on mount,
  where the claim has it fall back to the empty object, as the load does when the key
  is not in the store.
\<close>

theorem load_malformed_fails:
  "getItem [''k'' \<mapsto> ''{''] ''k'' = Some ''{'' \<and>
   JSON_parse ''{'' = Inl SyntaxError \<and>
   useLocalStorage_mount browser ''k'' (links_a ''1'') [''k'' \<mapsto> ''{''] cell_a = Inl SyntaxError \<and>
   useLocalStorage_mount browser ''k'' (links_a ''1'') Map.empty cell_a
     = Inr (\<lparr>stateRef_current = links_a ''1'', cleanup_key = ''k''\<rparr>, cell_a)"
  by (simp add: useLocalStorage_mount_def browser_def item_or_default_def getItem_def
      parse_open_brace parse_empty_object setValues_empty_object)

lemma rerenders_key: "cleanup_key (rerenders rs i) = cleanup_key i"
  by (induction rs i rule: rerenders.induct) (simp_all add: useLocalStorage_rerender_def)

lemma rerenders_ref:
  "stateRef_current (rerenders rs i) = last (stateRef_current i # map snd rs)"
  by (induction rs i rule: rerenders.induct) (simp_all add: useLocalStorage_rerender_def)

text \<open>
  C10. When the effect of the first render has run, then after every sequence of later
  renders, each with its own key and links object, the teardown stores under the key of
  the first render the encoding of the values read from the links object of the last
  render.
\<close>

theorem teardown_saves_latest_links:
  assumes "useLocalStorage_mount env key links store w = Inr (i, w')"
  shows "getItem (useLocalStorage_unmount env (rerenders rs i) store') key
           = Some (stringify env (getValues env (last (links # map snd rs))))"
proof -
  from assms have "stateRef_current i = links" "cleanup_key i = key"
    by (auto simp: useLocalStorage_mount_def Let_def split: sum.splits)
  then show ?thesis
    by (simp add: useLocalStorage_unmount_def rerenders_key rerenders_ref setItem_def getItem_def)
qed

text \<open>
  An instance: the link \<^verbatim>\<open>a\<close> has the value 1 at the first and the second render and
  the value 2 at the third; the teardown stores \<^verbatim>\<open>{"a":2}\<close>.
\<close>

theorem teardown_saves_latest_links_witness:
  "useLocalStorage_mount browser ''k'' (links_a ''1'') Map.empty cell_a
     = Inr (\<lparr>stateRef_current = links_a ''1'', cleanup_key = ''k''\<rparr>, cell_a) \<and>
   getItem (useLocalStorage_unmount browser
       (rerenders [(''k'', links_a ''1''), (''other'', links_a ''2'')]
          \<lparr>stateRef_current = links_a ''1'', cleanup_key = ''k''\<rparr>) Map.empty) ''k''
     = Some (''{'' @ quoted ''a'' @ '':2}'')"
proof -
  have m: "useLocalStorage_mount browser ''k'' (links_a ''1'') Map.empty cell_a
     = Inr (\<lparr>stateRef_current = links_a ''1'', cleanup_key = ''k''\<rparr>, cell_a)"
    by (simp add: useLocalStorage_mount_def browser_def item_or_default_def getItem_def
        parse_empty_object setValues_empty_object)
  have s: "stringify browser (getValues browser (links_a ''2'')) = ''{'' @ quoted ''a'' @ '':2}''"
    by (simp add: browser_def Link_getValues_def links_a_def UseStateLink_def quoted_def)
  from teardown_saves_latest_links [OF m,
      of "[(''k'', links_a ''1''), (''other'', links_a ''2'')]" Map.empty] m s
  show ?thesis by simp
qed

section \<open>Readiness\<close>

text \<open>
  C4. The boolean the first render of the tracker returns is \<open>readiness\<close> of
  \<^verbatim>\<open>null\<close>, and the boolean a later render returns is \<open>readiness\<close> of the counter
  as it stands once the requested updates are worked off: false for \<^verbatim>\<open>null\<close>, true for
  0, false for every number from 1 on.
\<close>

theorem readiness_of_counter:
  "fst (useIO_mount condition :: bool \<times> ('c, 'x, 'h) io_inst) = readiness None \<and>
   fst (fst (useIO_rerender condition (i :: ('c, 'x, 'h) io_inst) h)) = readiness (counter_now i h) \<and>
   readiness None = False \<and> readiness (Some 0) = True \<and>
   (\<forall>n. 1 \<le> n \<longrightarrow> readiness (Some n) = False)"
  by (auto simp: useIO_mount_def useSafeLink_mount_def useState_mount_def Let_def
      useIO_rerender_def useSafeLink_rerender_def useState_rerender_def
      UseStateLink_def counter_now_def readiness_def split: prod.splits)

lemmas io_eval = tracker0_def overlapping_def useIO_mount_def useSafeLink_mount_def
  useIO_effect_def useSafeLink_set_def useIsMountedRef_mount_def useState_mount_def setState_def
  increment_def decrement_def or_zero_def UseStateLink_def Let_def io_live_def io_flush_def
  io_render_def useIO_rerender_def useSafeLink_rerender_def useState_rerender_def
  useIsMountedRef_rerender_def useIO_settle_def useIO_unmount_def useSafeLink_unmount_def
  useIsMountedRef_unmount_def

theorem readiness_of_counter_witness:
  "(1::int) \<le> 2 \<and> readiness (Some 2) = False \<and>
   counter_now (fst (io_run [Effect] tracker0)) () = Some 1 \<and>
   fst (fst (useIO_rerender [1] (fst (io_run [Effect] tracker0)) ())) = False"
proof -
  have c: "counter_now (fst (io_run [Effect] tracker0)) () = Some 1"
    by (simp add: io_eval counter_now_def)
  note t = readiness_of_counter [where condition = "[1]" and i = "fst (io_run [Effect] tracker0)"
      and h = "()"]
  from t have all: "\<forall>n. 1 \<le> n \<longrightarrow> readiness (Some n) = False"
    by blast
  then have r1: "readiness (Some 1) = False" and r2: "readiness (Some 2) = False"
    by simp_all
  from t c r1 have "fst (fst (useIO_rerender [1] (fst (io_run [Effect] tracker0)) ())) = False"
    by simp
  with c r2 show ?thesis by simp
qed

lemma io_inv_mount: "io_inv (snd (useIO_mount deps))"
  by (simp add: io_inv_def useIO_mount_def useSafeLink_mount_def useState_mount_def
      useIsMountedRef_mount_def Let_def)

lemma io_inv_effect:
  assumes "io_inv i" "io_live i"
  shows "io_inv (useIO_effect i)"
proof -
  have e: "inflight i = []" if "issued i = 0"
    using assms that by (cases "inflight i") (auto simp: io_inv_def)
  show ?thesis
    using assms e
    by (auto simp: io_inv_def io_live_def useIO_effect_def useSafeLink_set_def setState_def
        run_queue_append increment_def or_zero_def)
qed

lemma io_inv_flush:
  assumes "io_inv i" "io_live i"
  shows "io_inv (io_flush i) \<and> io_live (io_flush i) \<and> issued (io_flush i) \<noteq> 0"
  using assms io_inv_effect [OF assms]
  by (auto simp: io_flush_def io_inv_def io_live_def useIO_effect_def useSafeLink_set_def)

lemma io_inv_rerender:
  assumes "io_inv i" "io_live i" "issued i \<noteq> 0"
  shows "io_inv (snd (fst (useIO_rerender c i h))) \<and> snd (useIO_rerender c i h) = h"
proof -
  let ?s = "\<lparr>safe_cell = \<lparr>cur = Some (int (length (inflight i))), queue = []\<rparr>,
             safe_mounted = safe_mounted (isReady i)\<rparr>"
  have r: "useSafeLink_rerender (isReady i) h
             = ((UseStateLink (Some (int (length (inflight i)))) useSafeLink_set, ?s), h)"
    using assms by (simp add: io_inv_def useSafeLink_rerender_def useState_rerender_def
        useIsMountedRef_rerender_def)
  show ?thesis
    using assms by (simp add: useIO_rerender_def r io_inv_def io_live_def)
qed

lemma io_inv_settle:
  assumes "io_inv i"
  shows "io_inv (useIO_settle p out i)"
proof (cases "p \<in> set (inflight i) \<and> io_live i")
  case False
  then show ?thesis using assms
    by (auto simp: useIO_settle_def io_inv_def io_live_def useSafeLink_set_def)
next
  case True
  with assms have d: "distinct (inflight i)" and m: "isMounted_current (safe_mounted (isReady i))"
    and b: "\<forall>p \<in> set (inflight i). p < issued i"
    and q: "\<And>h. run_queue (queue (safe_cell (isReady i))) (cur (safe_cell (isReady i))) h
               = (if issued i = 0 then None else Some (int (length (inflight i))), h)"
    by (simp_all add: io_inv_def)
  from True b have z: "issued i \<noteq> 0" by auto
  from True d have "length (removeAll p (inflight i)) = length (inflight i) - 1"
    by (simp add: distinct_remove1_removeAll [symmetric] length_remove1)
  moreover from True have "1 \<le> length (inflight i)"
    by (cases "inflight i") auto
  ultimately have n: "int (length (removeAll p (inflight i))) = int (length (inflight i)) - 1"
    by simp
  show ?thesis
    using True d m b z
    by (simp add: useIO_settle_def io_inv_def io_live_def useSafeLink_set_def setState_def
        run_queue_append decrement_def distinct_removeAll q n)
qed

lemma io_inv_unmount: "io_inv i \<Longrightarrow> io_inv (useIO_unmount i)"
  by (auto simp: io_inv_def io_live_def useIO_unmount_def useSafeLink_unmount_def
      useIsMountedRef_unmount_def)

lemma io_inv_step:
  assumes "io_inv i"
  shows "io_inv (fst (io_step e (i, h))) \<and> snd (io_step e (i, h)) = h"
proof (cases e)
  case (Render c)
  show ?thesis
  proof (cases "io_live i")
    case True
    from io_inv_flush [OF assms True] io_inv_rerender [of "io_flush i" c h]
    show ?thesis using Render True by (simp add: io_render_def case_prod_beta)
  next
    case False
    then show ?thesis using Render assms by simp
  qed
next
  case Effect
  then show ?thesis using assms io_inv_flush [of i] by simp
next
  case (Settle p out)
  then show ?thesis using assms by (simp add: io_inv_settle)
next
  case Unmount
  then show ?thesis using assms by (simp add: io_inv_unmount)
qed

lemma io_inv_run:
  "io_inv i \<Longrightarrow> io_inv (fst (io_run evs (i, h))) \<and> snd (io_run evs (i, h)) = h"
proof (induction evs arbitrary: i)
  case Nil
  then show ?case by simp
next
  case (Cons e evs)
  from io_inv_step [OF Cons.prems, of e h]
  obtain i' where s: "io_step e (i, h) = (i', h)" and i': "io_inv i'"
    by (cases "io_step e (i, h)") auto
  from Cons.IH [OF i'] s show ?case by simp
qed

lemma render_of_inv:
  assumes "io_inv i" "io_live i"
  shows "fst (fst (io_render c (i, h))) = (inflight i = [] \<and> \<not> effect_due i)"
proof (cases "effect_due i")
  case True
  from io_inv_effect [OF assms] assms
  have "fst (run_queue (queue (safe_cell (isReady (useIO_effect i))))
              (cur (safe_cell (isReady (useIO_effect i)))) h)
          = Some (int (length (inflight i)) + 1)"
    by (simp add: io_inv_def io_live_def useIO_effect_def useSafeLink_set_def)
  with True show ?thesis
    by (simp add: io_render_def io_flush_def useIO_rerender_def useSafeLink_rerender_def
        useState_rerender_def UseStateLink_def readiness_def case_prod_beta)
next
  case False
  with assms have "fst (run_queue (queue (safe_cell (isReady i))) (cur (safe_cell (isReady i))) h)
          = Some (int (length (inflight i)))"
    by (auto simp: io_inv_def)
  with False show ?thesis
    by (simp add: io_render_def io_flush_def useIO_rerender_def useSafeLink_rerender_def
        useState_rerender_def UseStateLink_def readiness_def case_prod_beta)
qed

text \<open>
  C3. Take a tracker after its first render and let renders, effects, settlements and
  teardown follow in any number and order. While the instance is live, the boolean a
  render returns is true exactly when no promise the tracker has issued is still in
  flight and no effect is waiting to issue one. So with two promises in flight it stays
  false when either settles, whichever comes first, and is true once both have settled.
\<close>

theorem readiness_tracks_inflight:
  "io_live (fst (io_run evs (snd (useIO_mount deps), hp))) \<longrightarrow>
     fst (fst (io_render c (io_run evs (snd (useIO_mount deps), hp))))
       = (inflight (fst (io_run evs (snd (useIO_mount deps), hp))) = [] \<and>
          \<not> effect_due (fst (io_run evs (snd (useIO_mount deps), hp))))"
proof
  let ?st = "io_run evs (snd (useIO_mount deps), hp)"
  assume live: "io_live (fst ?st)"
  from io_inv_run [OF io_inv_mount, of evs deps hp] have inv: "io_inv (fst ?st)" by simp
  from render_of_inv [OF inv live, of c "snd ?st"]
  show "fst (fst (io_render c ?st)) = (inflight (fst ?st) = [] \<and> \<not> effect_due (fst ?st))"
    by simp
qed

text \<open>
  An instance: promise 1 is issued while promise 0 is in flight; promise 1 is resolved
  first, and a render returns false; then promise 0 is rejected, and a render returns
  true.
\<close>

theorem readiness_tracks_inflight_witness:
  "io_live (fst (io_run overlapping tracker0)) \<and>
   inflight (fst (io_run overlapping tracker0)) = [0] \<and>
   fst (fst (io_render [1] (io_run overlapping tracker0))) = False \<and>
   io_live (fst (io_run (overlapping @ [Settle 0 (Rejected ())]) tracker0)) \<and>
   inflight (fst (io_run (overlapping @ [Settle 0 (Rejected ())]) tracker0)) = [] \<and>
   effect_due (fst (io_run (overlapping @ [Settle 0 (Rejected ())]) tracker0)) = False \<and>
   fst (fst (io_render [1] (io_run (overlapping @ [Settle 0 (Rejected ())]) tracker0))) = True"
proof -
  have live: "io_live (fst (io_run overlapping tracker0))"
    and infl: "inflight (fst (io_run overlapping tracker0)) = [0]"
    by (simp_all add: io_eval)
  have live': "io_live (fst (io_run (overlapping @ [Settle 0 (Rejected ())]) tracker0))"
    and infl': "inflight (fst (io_run (overlapping @ [Settle 0 (Rejected ())]) tracker0)) = []"
    and due': "effect_due (fst (io_run (overlapping @ [Settle 0 (Rejected ())]) tracker0)) = False"
    by (simp_all add: io_eval)
  have a: "fst (fst (io_render [1] (io_run overlapping tracker0))) = False"
    using readiness_tracks_inflight [where evs = overlapping and deps = "[0]" and hp = "()"
        and c = "[1]"] live infl
    by (simp add: tracker0_def)
  have b: "fst (fst (io_render [1] (io_run (overlapping @ [Settle 0 (Rejected ())]) tracker0))) = True"
    using readiness_tracks_inflight [where evs = "overlapping @ [Settle 0 (Rejected ())]"
        and deps = "[0]" and hp = "()" and c = "[1]"] live' infl' due'
    by (simp add: tracker0_def)
  from live infl a live' infl' due' b show ?thesis by blast
qed

text \<open>
  C5, as the code has it. When a promise in flight settles while the mount flag is set,
  one decrement is requested, the same for either outcome; settling it again changes
  nothing. When the mount flag is false, the guarded setter drops the decrement, and the
  cell of the counter stays as it was. Either way the promise chained by \<^verbatim>\<open>finally\<close>
  settles with the outcome of the operation, as it came.
\<close>

theorem settle_decrements_once:
  assumes "p \<in> set (inflight i)"
  shows "(isMounted_current (safe_mounted (isReady i)) \<longrightarrow>
           counter_now (useIO_settle p out i) h
             = Some ((case counter_now i h of None \<Rightarrow> 0 | Some n \<Rightarrow> n) - 1)) \<and>
         (\<not> isMounted_current (safe_mounted (isReady j)) \<longrightarrow>
           isReady (useIO_settle p out j) = isReady j) \<and>
         useIO_settle p out' (useIO_settle p out i) = useIO_settle p out i \<and>
         chained (useIO_settle p out i) = chained i @ [(p, out)]"
  using assms
  by (auto simp: useIO_settle_def counter_now_def useSafeLink_set_def setState_def
      run_queue_append decrement_def split: prod.splits)

text \<open>
  An instance: promise 0 is rejected on a mounted tracker, and the counter goes from 1
  to 0; on the tracker torn down, the cell of the counter is left as it was. The chained
  promise is rejected with the same reason.
\<close>

theorem settle_decrements_once_witness:
  "0 \<in> set (inflight (fst (io_run [Effect] tracker0))) \<and>
   isMounted_current (safe_mounted (isReady (fst (io_run [Effect] tracker0)))) \<and>
   counter_now (fst (io_run [Effect] tracker0)) () = Some 1 \<and>
   counter_now (useIO_settle 0 (Rejected ()) (fst (io_run [Effect] tracker0))) () = Some 0 \<and>
   \<not> isMounted_current (safe_mounted (isReady (fst (io_run [Effect, Unmount] tracker0)))) \<and>
   isReady (useIO_settle 0 (Rejected ()) (fst (io_run [Effect, Unmount] tracker0)))
     = isReady (fst (io_run [Effect, Unmount] tracker0)) \<and>
   chained (useIO_settle 0 (Rejected ()) (fst (io_run [Effect] tracker0))) = [(0, Rejected ())]"
proof -
  have p: "0 \<in> set (inflight (fst (io_run [Effect] tracker0)))"
    and m: "isMounted_current (safe_mounted (isReady (fst (io_run [Effect] tracker0))))"
    and c: "counter_now (fst (io_run [Effect] tracker0)) () = Some 1"
    and e: "chained (fst (io_run [Effect] tracker0)) = []"
    and u: "\<not> isMounted_current (safe_mounted (isReady (fst (io_run [Effect, Unmount] tracker0))))"
    by (simp_all add: io_eval counter_now_def)
  from settle_decrements_once [OF p, of "Rejected ()" "()" "fst (io_run [Effect, Unmount] tracker0)"]
    m c e u
  show ?thesis using p by simp
qed

text \<open>
  C5 as stated fails after teardown. The tracker is torn down while promise 0 is in
  flight, with the counter at 1; then the promise is rejected. It is no longer in
  flight, and the counter is still 1.
\<close>

theorem settle_after_teardown_drops_decrement:
  "inflight (fst (io_run [Effect, Unmount] tracker0)) = [0] \<and>
   counter_now (fst (io_run [Effect, Unmount] tracker0)) () = Some 1 \<and>
   inflight (fst (io_run [Effect, Unmount, Settle 0 (Rejected ())] tracker0)) = [] \<and>
   counter_now (fst (io_run [Effect, Unmount, Settle 0 (Rejected ())] tracker0)) () = Some 1"
  by (simp add: io_eval counter_now_def)

end
